theory Spec2Isabelle
  imports Main "HOL-Library.Word"
begin

unbundle bit_operations_syntax

section \<open>Data model of \<open>big_integer\<close>\<close>

text \<open>
  \<^verbatim>\<open>digit_type\<close> is \<^verbatim>\<open>uint32_t\<close>, \<^verbatim>\<open>double_digit_type\<close> is \<^verbatim>\<open>uint64_t\<close>.
  The struct has the two fields \<^verbatim>\<open>_data\<close> (little-endian vector of digits) and
  \<^verbatim>\<open>_negative\<close>.
\<close>

type_synonym digit_type = "32 word"
type_synonym double_digit_type = "64 word"

record big_integer =
  data :: "digit_type list"
  negative :: bool

definition DIGIT_MAX_VALUE :: double_digit_type where
  "DIGIT_MAX_VALUE = 0xFFFFFFFF"

definition DIGIT_BITS :: nat where
  "DIGIT_BITS = 32"

definition DIGIT_BASE :: double_digit_type where
  "DIGIT_BASE = DIGIT_MAX_VALUE + 1"

definition DIGITS_10 :: nat where
  "DIGITS_10 = 9"

definition DIGIT_MOD10 :: digit_type where
  "DIGIT_MOD10 = 1000000000"

datatype error = ParseError | DivisionByZero

subsection \<open>Observers and trimming\<close>

definition is_zero :: "big_integer \<Rightarrow> bool" where
  "is_zero a = (data a = [])"

definition is_negative :: "big_integer \<Rightarrow> bool" where
  "is_negative a = (negative a \<and> \<not> is_zero a)"

definition negate :: "big_integer \<Rightarrow> big_integer" where
  "negate a = a\<lparr>negative := \<not> negative a\<rparr>"

text \<open>\<^verbatim>\<open>while (!_data.empty() && _data.back() == 0) _data.pop_back();\<close>\<close>

function trim_data :: "digit_type list \<Rightarrow> digit_type list" where
  "trim_data ds = (if ds \<noteq> [] \<and> last ds = 0 then trim_data (butlast ds) else ds)"
  by pat_completeness auto
termination
  by (relation "measure length") auto

declare trim_data.simps [simp del]

definition trim :: "big_integer \<Rightarrow> big_integer" where
  "trim a = a\<lparr>data := trim_data (data a)\<rparr>"


subsection \<open>Construction from built-in integers\<close>

text \<open>
  \<^verbatim>\<open>big_integer(unsigned long long val, bool negative)\<close>: the low 32 bits are pushed
  when \<^verbatim>\<open>val != 0\<close>, then the high 32 bits when they are not zero.
\<close>

definition ctor_ull :: "double_digit_type \<Rightarrow> bool \<Rightarrow> big_integer" where
  "ctor_ull val neg =
     (if val \<noteq> 0 then
        (let val' = drop_bit DIGIT_BITS val in
         if val' \<noteq> 0 then \<lparr>data = [ucast val, ucast val'], negative = neg\<rparr>
         else \<lparr>data = [ucast val], negative = neg\<rparr>)
      else \<lparr>data = [], negative = neg\<rparr>)"

text \<open>
  \<^verbatim>\<open>big_integer(long long val)\<close>: the argument is a 64-bit two's complement
  number, read by \<open>sint\<close>; the most negative value is special-cased.
\<close>

definition ctor_ll :: "64 word \<Rightarrow> big_integer" where
  "ctor_ll val =
     ctor_ull (if val = 0x8000000000000000 then 0x7FFFFFFFFFFFFFFF + 1
               else if sint val < 0 then - val else val)
              (sint val < 0)"

text \<open>The default constructor.\<close>

definition ctor_default :: big_integer where
  "ctor_default = \<lparr>data = [], negative = False\<rparr>"

subsection \<open>Digit-scalar primitives\<close>

text \<open>\<^verbatim>\<open>abs_add_int\<close>: ripple carry of a single digit through the magnitude.\<close>

fun abs_add_int_loop :: "double_digit_type \<Rightarrow> digit_type list \<Rightarrow> digit_type list \<times> double_digit_type" where
  "abs_add_int_loop s [] = ([], s)"
| "abs_add_int_loop s (d # ds) =
     (let s1 = s + ucast d;
          d' = (ucast s1 :: digit_type);
          s2 = drop_bit DIGIT_BITS s1;
          (ds', s') = abs_add_int_loop s2 ds
      in (d' # ds', s'))"

definition abs_add_int :: "big_integer \<Rightarrow> digit_type \<Rightarrow> big_integer" where
  "abs_add_int a rhs =
     (let (ds, s) = abs_add_int_loop (ucast rhs) (data a)
      in a\<lparr>data := (if s \<noteq> 0 then ds @ [ucast s] else ds)\<rparr>)"

text \<open>
  \<^verbatim>\<open>abs_sub_int\<close>: the difference is computed in 64 bits and wraps; a borrow is
  detected by \<^verbatim>\<open>diff > DIGIT_MAX_VALUE\<close>.
\<close>

fun abs_sub_int_loop :: "double_digit_type \<Rightarrow> digit_type list \<Rightarrow> digit_type list" where
  "abs_sub_int_loop borrow [] = []"
| "abs_sub_int_loop borrow (d # ds) =
     (let diff = (ucast d :: double_digit_type) - borrow;
          borrow' = (if diff > DIGIT_MAX_VALUE then 1 else 0)
      in (ucast diff :: digit_type) # abs_sub_int_loop borrow' ds)"

definition abs_sub_int :: "big_integer \<Rightarrow> digit_type \<Rightarrow> big_integer" where
  "abs_sub_int a rhs = trim (a\<lparr>data := abs_sub_int_loop (ucast rhs) (data a)\<rparr>)"

text \<open>\<^verbatim>\<open>abs_mul_int\<close>.\<close>

fun abs_mul_int_loop :: "digit_type \<Rightarrow> double_digit_type \<Rightarrow> digit_type list \<Rightarrow> digit_type list \<times> double_digit_type" where
  "abs_mul_int_loop rhs s [] = ([], s)"
| "abs_mul_int_loop rhs s (d # ds) =
     (let s1 = (ucast d :: double_digit_type) * ucast rhs + s;
          d' = (ucast s1 :: digit_type);
          s2 = drop_bit DIGIT_BITS s1;
          (ds', s') = abs_mul_int_loop rhs s2 ds
      in (d' # ds', s'))"

definition abs_mul_int :: "big_integer \<Rightarrow> digit_type \<Rightarrow> big_integer" where
  "abs_mul_int a rhs =
     (let (ds, s) = abs_mul_int_loop rhs 0 (data a)
      in trim (a\<lparr>data := (if s \<noteq> 0 then ds @ [ucast s] else ds)\<rparr>))"

text \<open>
  \<^verbatim>\<open>abs_divide_int\<close> walks the digits from the most significant one (the list
  given to the loop is the reversed magnitude) and returns the remainder, narrowed to
  \<^verbatim>\<open>digit_type\<close>. Every caller passes a non-zero \<^verbatim>\<open>val\<close>.
\<close>

fun abs_divide_int_loop :: "digit_type \<Rightarrow> double_digit_type \<Rightarrow> digit_type list \<Rightarrow> digit_type list \<times> double_digit_type" where
  "abs_divide_int_loop val r [] = ([], r)"
| "abs_divide_int_loop val r (d # ds) =
     (let r1 = push_bit DIGIT_BITS r OR ucast d;
          q = (ucast (r1 div ucast val) :: digit_type);
          r2 = r1 mod ucast val;
          (qs, r') = abs_divide_int_loop val r2 ds
      in (q # qs, r'))"

definition abs_divide_int :: "big_integer \<Rightarrow> digit_type \<Rightarrow> big_integer \<times> digit_type" where
  "abs_divide_int a val =
     (let (qs, r) = abs_divide_int_loop val 0 (rev (data a))
      in (trim (a\<lparr>data := rev qs\<rparr>), ucast r))"

subsection \<open>Shifts\<close>

text \<open>
  The shift amount is an \<^verbatim>\<open>int\<close>; the specification leaves negative amounts
  undefined, so the model takes a natural number.
\<close>

definition shl_assign :: "big_integer \<Rightarrow> nat \<Rightarrow> big_integer" where
  "shl_assign a rhs =
     abs_mul_int (a\<lparr>data := replicate (rhs div DIGIT_BITS) 0 @ data a\<rparr>)
                 (push_bit (rhs mod DIGIT_BITS) 1)"

definition shr_assign :: "big_integer \<Rightarrow> nat \<Rightarrow> big_integer" where
  "shr_assign a rhs =
     (let to_erase = rhs div DIGIT_BITS in
      if to_erase > length (data a) then a\<lparr>data := []\<rparr>
      else
        (let a1 = a\<lparr>data := drop to_erase (data a)\<rparr>;
             a2 = fst (abs_divide_int a1 (push_bit (rhs mod DIGIT_BITS) 1))
         in if is_negative a2 then abs_add_int a2 1 else a2))"

text \<open>\<^verbatim>\<open>operator<<(a, b)\<close> and \<^verbatim>\<open>operator>>(a, b)\<close> work on a copy of \<^verbatim>\<open>a\<close>.\<close>

definition op_shl :: "big_integer \<Rightarrow> nat \<Rightarrow> big_integer" where
  "op_shl a b = shl_assign a b"

definition op_shr :: "big_integer \<Rightarrow> nat \<Rightarrow> big_integer" where
  "op_shr a b = shr_assign a b"

subsection \<open>Increment, decrement, unary operators\<close>

definition pre_inc :: "big_integer \<Rightarrow> big_integer" where
  "pre_inc a = (if \<not> is_negative a then abs_add_int a 1 else abs_sub_int a 1)"

definition pre_dec :: "big_integer \<Rightarrow> big_integer" where
  "pre_dec a =
     (if is_zero a then a\<lparr>negative := True, data := data a @ [1]\<rparr>
      else negate (pre_inc (negate a)))"

definition op_pos :: "big_integer \<Rightarrow> big_integer" where
  "op_pos a = a"

definition op_neg :: "big_integer \<Rightarrow> big_integer" where
  "op_neg a = negate a"

text \<open>\<^verbatim>\<open>return --big_integer(*this).negate();\<close>\<close>

definition op_not :: "big_integer \<Rightarrow> big_integer" where
  "op_not a = pre_dec (negate a)"

subsection \<open>Comparison\<close>

definition op_eq :: "big_integer \<Rightarrow> big_integer \<Rightarrow> bool" where
  "op_eq a b = (is_negative a = is_negative b \<and> data a = data b)"

text \<open>
  \<^verbatim>\<open>std::lexicographical_compare\<close> on the reversed digit sequences.
\<close>

fun lexicographical_compare :: "digit_type list \<Rightarrow> digit_type list \<Rightarrow> bool" where
  "lexicographical_compare [] [] = False"
| "lexicographical_compare [] (y # ys) = True"
| "lexicographical_compare (x # xs) [] = False"
| "lexicographical_compare (x # xs) (y # ys) =
     (if x < y then True else if y < x then False else lexicographical_compare xs ys)"

definition op_gt :: "big_integer \<Rightarrow> big_integer \<Rightarrow> bool" where
  "op_gt a b =
     (if \<not> is_negative a \<and> is_negative b then True
      else if is_negative a \<and> \<not> is_negative b then False
      else if length (data a) \<noteq> length (data b)
        then (length (data a) > length (data b)) \<noteq> is_negative a
      else if is_negative a
        then lexicographical_compare (rev (data a)) (rev (data b))
      else lexicographical_compare (rev (data b)) (rev (data a)))"

definition op_lt :: "big_integer \<Rightarrow> big_integer \<Rightarrow> bool" where
  "op_lt a b = op_gt b a"

definition op_le :: "big_integer \<Rightarrow> big_integer \<Rightarrow> bool" where
  "op_le a b = (\<not> op_gt a b)"

definition op_ge :: "big_integer \<Rightarrow> big_integer \<Rightarrow> bool" where
  "op_ge a b = op_le b a"


section \<open>In-place arithmetic on objects that may alias\<close>

text \<open>
  The compound assignments take their right operand by reference, and the
  helpers \<^verbatim>\<open>abs_add\<close> and \<^verbatim>\<open>abs_subtract\<close> write to an \<^verbatim>\<open>output\<close> object that is
  one of their operands. They are modelled on a store of objects, so that a call with
  \<^verbatim>\<open>&rhs == this\<close> reads what the same call has already written.
\<close>

type_synonym addr = nat
type_synonym store = "addr \<Rightarrow> big_integer"

definition size_at :: "store \<Rightarrow> addr \<Rightarrow> nat" where
  "size_at st p = length (data (st p))"

definition digit_at :: "store \<Rightarrow> addr \<Rightarrow> nat \<Rightarrow> digit_type" where
  "digit_at st p i = data (st p) ! i"

definition set_digit :: "addr \<Rightarrow> nat \<Rightarrow> digit_type \<Rightarrow> store \<Rightarrow> store" where
  "set_digit p i d st = st(p := (st p)\<lparr>data := (data (st p))[i := d]\<rparr>)"

definition set_data :: "addr \<Rightarrow> digit_type list \<Rightarrow> store \<Rightarrow> store" where
  "set_data p ds st = st(p := (st p)\<lparr>data := ds\<rparr>)"

definition set_negative :: "addr \<Rightarrow> bool \<Rightarrow> store \<Rightarrow> store" where
  "set_negative p b st = st(p := (st p)\<lparr>negative := b\<rparr>)"

text \<open>\<^verbatim>\<open>std::vector::resize(n)\<close>: truncates, or pads with zeros.\<close>

definition resize :: "nat \<Rightarrow> digit_type list \<Rightarrow> digit_type list" where
  "resize n ds = take n ds @ replicate (n - length ds) 0"

subsection \<open>\<^verbatim>\<open>abs_add\<close>\<close>

function abs_add_loop1 ::
  "addr \<Rightarrow> addr \<Rightarrow> addr \<Rightarrow> nat \<Rightarrow> double_digit_type \<Rightarrow> store \<Rightarrow> nat \<times> double_digit_type \<times> store" where
  "abs_add_loop1 this rhs output i carry st =
     (if i < size_at st rhs then
        (let carry1 = carry + ucast (digit_at st rhs i);
             carry2 = carry1 + ucast (digit_at st this i);
             st' = set_digit output i (ucast carry2) st
         in abs_add_loop1 this rhs output (i + 1) (drop_bit DIGIT_BITS carry2) st')
      else (i, carry, st))"
  by pat_completeness auto
termination
  by (relation "measure (\<lambda>(this, rhs, output, i, carry, st). size_at st rhs - i)")
     (auto simp: size_at_def set_digit_def)

function abs_add_loop2 ::
  "addr \<Rightarrow> addr \<Rightarrow> nat \<Rightarrow> double_digit_type \<Rightarrow> store \<Rightarrow> double_digit_type \<times> store" where
  "abs_add_loop2 this output i carry st =
     (if i < size_at st this then
        (let carry1 = carry + ucast (digit_at st this i);
             st' = set_digit output i (ucast carry1) st
         in abs_add_loop2 this output (i + 1) (drop_bit DIGIT_BITS carry1) st')
      else (carry, st))"
  by pat_completeness auto
termination
  by (relation "measure (\<lambda>(this, output, i, carry, st). size_at st this - i)")
     (auto simp: size_at_def set_digit_def)

declare abs_add_loop1.simps [simp del] abs_add_loop2.simps [simp del]

text \<open>
  \<^verbatim>\<open>this->abs_add(rhs, output)\<close>, with \<^verbatim>\<open>this == &output || &rhs == &output\<close>
  asserted by the source. When \<^verbatim>\<open>this\<close> is the shorter operand the call is repeated
  with the operands exchanged.
\<close>

function abs_add :: "addr \<Rightarrow> addr \<Rightarrow> addr \<Rightarrow> store \<Rightarrow> store" where
  "abs_add this rhs output st =
     (if size_at st this < size_at st rhs then abs_add rhs this output st
      else
        (let (i, carry, st1) = abs_add_loop1 this rhs output 0 0 st;
             st2 = set_data output (resize (size_at st1 this) (data (st1 output))) st1;
             (carry', st3) = abs_add_loop2 this output i carry st2
         in if carry' \<noteq> 0 then set_data output (data (st3 output) @ [ucast carry']) st3
            else st3))"
  by pat_completeness auto
termination
  by (relation "measure (\<lambda>(this, rhs, output, st). if size_at st this < size_at st rhs then 1 else 0)")
     auto

declare abs_add.simps [simp del]

subsection \<open>\<^verbatim>\<open>abs_subtract\<close>\<close>

text \<open>
  \<^verbatim>\<open>max_size\<close> defaults to the largest \<^verbatim>\<open>size_t\<close>; \<open>None\<close> stands for the default,
  which never limits a loop.
\<close>

definition min_size :: "nat option \<Rightarrow> nat \<Rightarrow> nat" where
  "min_size max_size n = (case max_size of None \<Rightarrow> n | Some m \<Rightarrow> min m n)"

function abs_subtract_loop1 ::
  "addr \<Rightarrow> addr \<Rightarrow> addr \<Rightarrow> nat \<Rightarrow> nat \<Rightarrow> double_digit_type \<Rightarrow> store \<Rightarrow> nat \<times> double_digit_type \<times> store" where
  "abs_subtract_loop1 this rhs output sz i borrow st =
     (if i < sz then
        (let diff = (ucast (digit_at st this i) :: double_digit_type)
                      - ucast (digit_at st rhs i) - borrow;
             borrow' = (if diff > DIGIT_MAX_VALUE then 1 else 0);
             st' = set_digit output i (ucast diff) st
         in abs_subtract_loop1 this rhs output sz (i + 1) borrow' st')
      else (i, borrow, st))"
  by pat_completeness auto
termination
  by (relation "measure (\<lambda>(this, rhs, output, sz, i, borrow, st). sz - i)") auto

function abs_subtract_loop2 ::
  "addr \<Rightarrow> addr \<Rightarrow> nat \<Rightarrow> nat \<Rightarrow> double_digit_type \<Rightarrow> store \<Rightarrow> store" where
  "abs_subtract_loop2 this output sz i borrow st =
     (if i < sz \<and> borrow \<noteq> 0 then
        (let diff = (ucast (digit_at st this i) :: double_digit_type) - borrow;
             borrow' = (if diff > DIGIT_MAX_VALUE then 1 else 0);
             st' = set_digit output i (ucast diff) st
         in abs_subtract_loop2 this output sz (i + 1) borrow' st')
      else st)"
  by pat_completeness auto
termination
  by (relation "measure (\<lambda>(this, output, sz, i, borrow, st). sz - i)") auto

declare abs_subtract_loop1.simps [simp del] abs_subtract_loop2.simps [simp del]

definition abs_subtract :: "addr \<Rightarrow> addr \<Rightarrow> addr \<Rightarrow> nat option \<Rightarrow> store \<Rightarrow> store" where
  "abs_subtract this rhs output max_size st =
     (let st0 = set_negative output (is_negative (st this)) st;
          (i, borrow, st1) =
             abs_subtract_loop1 this rhs output (min_size max_size (size_at st0 rhs)) 0 0 st0;
          st2 = abs_subtract_loop2 this output (min_size max_size (size_at st1 this)) i borrow st1
      in st2(output := trim (st2 output)))"

subsection \<open>\<^verbatim>\<open>operator+=\<close> and \<^verbatim>\<open>operator-=\<close>\<close>

text \<open>
  The loop that strips the equal high digits of two operands of the same length:
  \<^verbatim>\<open>while (!_data.empty() && _data.back() == rhs._data[_data.size() - 1]) _data.pop_back();\<close>
\<close>

function pop_equal :: "addr \<Rightarrow> addr \<Rightarrow> store \<Rightarrow> store" where
  "pop_equal this rhs st =
     (if data (st this) \<noteq> [] \<and> last (data (st this)) = digit_at st rhs (size_at st this - 1)
      then pop_equal this rhs (set_data this (butlast (data (st this))) st)
      else st)"
  by pat_completeness auto
termination
  by (relation "measure (\<lambda>(this, rhs, st). size_at st this)")
     (auto simp: size_at_def set_data_def)

declare pop_equal.simps [simp del]

definition add_assign_st :: "addr \<Rightarrow> addr \<Rightarrow> store \<Rightarrow> store" where
  "add_assign_st this rhs st =
     (if is_negative (st this) = is_negative (st rhs) then abs_add this rhs this st
      else if size_at st this = size_at st rhs then
        (let st1 = pop_equal this rhs st in
         if data (st1 this) = [] then st1
         else if last (data (st1 this)) > digit_at st1 rhs (size_at st1 this - 1)
           then abs_subtract this rhs this (Some (size_at st1 this)) st1
         else abs_subtract rhs this this (Some (size_at st1 this)) st1)
      else if size_at st this > size_at st rhs then abs_subtract this rhs this None st
      else abs_subtract rhs this this None st)"

definition negate_st :: "addr \<Rightarrow> store \<Rightarrow> store" where
  "negate_st this st = st(this := negate (st this))"

text \<open>\<^verbatim>\<open>return (negate() += rhs).negate();\<close>\<close>

definition sub_assign_st :: "addr \<Rightarrow> addr \<Rightarrow> store \<Rightarrow> store" where
  "sub_assign_st this rhs st = negate_st this (add_assign_st this rhs (negate_st this st))"

subsection \<open>\<^verbatim>\<open>abs_mul\<close> and \<^verbatim>\<open>operator*=\<close>\<close>

text \<open>
  The inner loop of \<^verbatim>\<open>abs_mul\<close>; \<^verbatim>\<open>carry\<close> is a \<^verbatim>\<open>digit_type\<close>, \<^verbatim>\<open>data_i\<close> and
  \<^verbatim>\<open>res\<close> are \<^verbatim>\<open>double_digit_type\<close>.
\<close>

function abs_mul_inner ::
  "addr \<Rightarrow> addr \<Rightarrow> nat \<Rightarrow> nat \<Rightarrow> double_digit_type \<Rightarrow> nat \<Rightarrow> digit_type \<Rightarrow> store \<Rightarrow> digit_type \<times> store" where
  "abs_mul_inner this rhs rhs_size i data_i j carry st =
     (if j < rhs_size then
        (let res = data_i * ucast (digit_at st rhs j) + ucast (digit_at st this (i + j)) + ucast carry;
             carry' = (ucast (drop_bit DIGIT_BITS res) :: digit_type);
             st' = set_digit this (i + j) (ucast res) st
         in abs_mul_inner this rhs rhs_size i data_i (j + 1) carry' st')
      else (carry, st))"
  by pat_completeness auto
termination
  by (relation "measure (\<lambda>(this, rhs, rhs_size, i, data_i, j, carry, st). rhs_size - j)") auto

function abs_mul_outer :: "addr \<Rightarrow> addr \<Rightarrow> nat \<Rightarrow> nat \<Rightarrow> nat \<Rightarrow> store \<Rightarrow> store" where
  "abs_mul_outer this rhs this_size rhs_size i st =
     (if i < this_size then
        (let data_i = (ucast (digit_at st this (i + rhs_size)) :: double_digit_type);
             (carry, st1) = abs_mul_inner this rhs rhs_size i data_i 0 0 st;
             st2 = set_digit this (i + rhs_size) carry st1
         in abs_mul_outer this rhs this_size rhs_size (i + 1) st2)
      else st)"
  by pat_completeness auto
termination
  by (relation "measure (\<lambda>(this, rhs, this_size, rhs_size, i, st). this_size - i)") auto

declare abs_mul_inner.simps [simp del] abs_mul_outer.simps [simp del]

definition abs_mul :: "addr \<Rightarrow> addr \<Rightarrow> store \<Rightarrow> store" where
  "abs_mul this rhs st =
     (let this_size = size_at st this;
          rhs_size = size_at st rhs;
          st1 = set_data this (replicate rhs_size 0 @ data (st this)) st;
          st2 = abs_mul_outer this rhs this_size rhs_size 0 st1
      in st2(this := trim (st2 this)))"

text \<open>\<^verbatim>\<open>_negative ^= rhs.is_negative(); return abs_mul(rhs);\<close>\<close>

definition mul_assign_st :: "addr \<Rightarrow> addr \<Rightarrow> store \<Rightarrow> store" where
  "mul_assign_st this rhs st =
     abs_mul this rhs (set_negative this (negative (st this) \<noteq> is_negative (st rhs)) st)"

subsection \<open>The same operators on two distinct objects\<close>

text \<open>
  \<^verbatim>\<open>a += b\<close>, \<^verbatim>\<open>a -= b\<close> and \<^verbatim>\<open>a *= b\<close> for two different objects: \<open>a\<close> lives at address
  \<open>0\<close> and \<open>b\<close> at address \<open>1\<close>; the result is what address \<open>0\<close> holds afterwards. The
  binary operators copy their left operand and apply the compound assignment to the
  copy, so they are always in this case.
\<close>

definition store2 :: "big_integer \<Rightarrow> big_integer \<Rightarrow> store" where
  "store2 a b = (\<lambda>p. if p = 0 then a else b)"

definition add_assign :: "big_integer \<Rightarrow> big_integer \<Rightarrow> big_integer" where
  "add_assign a b = add_assign_st 0 1 (store2 a b) 0"

definition sub_assign :: "big_integer \<Rightarrow> big_integer \<Rightarrow> big_integer" where
  "sub_assign a b = sub_assign_st 0 1 (store2 a b) 0"

definition mul_assign :: "big_integer \<Rightarrow> big_integer \<Rightarrow> big_integer" where
  "mul_assign a b = mul_assign_st 0 1 (store2 a b) 0"

definition op_add :: "big_integer \<Rightarrow> big_integer \<Rightarrow> big_integer" where
  "op_add a b = add_assign a b"

definition op_sub :: "big_integer \<Rightarrow> big_integer \<Rightarrow> big_integer" where
  "op_sub a b = sub_assign a b"

definition op_mul :: "big_integer \<Rightarrow> big_integer \<Rightarrow> big_integer" where
  "op_mul a b = mul_assign a b"

section \<open>Bitwise operations\<close>

text \<open>
  \<^verbatim>\<open>twos_complement(neg, digit, carry)\<close> returns the converted digit and updates
  \<^verbatim>\<open>carry\<close> through the reference; the model returns both.
\<close>

definition twos_complement :: "bool \<Rightarrow> digit_type \<Rightarrow> digit_type \<Rightarrow> digit_type \<times> digit_type" where
  "twos_complement neg digit carry =
     (if \<not> neg then (digit, carry)
      else (let res = (ucast carry :: double_digit_type) + ucast (NOT digit)
            in (ucast res, ucast (drop_bit DIGIT_BITS res))))"

text \<open>
  The function objects \<^verbatim>\<open>std::bit_and<>\<close>, \<^verbatim>\<open>std::bit_or<>\<close>, \<^verbatim>\<open>std::bit_xor<>\<close>
  are applied both to the two sign flags and to two digits.
\<close>

datatype bit_op = Bit_and | Bit_or | Bit_xor

fun op_bool :: "bit_op \<Rightarrow> bool \<Rightarrow> bool \<Rightarrow> bool" where
  "op_bool Bit_and x y = (x \<and> y)"
| "op_bool Bit_or x y = (x \<or> y)"
| "op_bool Bit_xor x y = (x \<noteq> y)"

fun op_digit :: "bit_op \<Rightarrow> digit_type \<Rightarrow> digit_type \<Rightarrow> digit_type" where
  "op_digit Bit_and x y = x AND y"
| "op_digit Bit_or x y = x OR y"
| "op_digit Bit_xor x y = x XOR y"

function bitwise_loop ::
  "bit_op \<Rightarrow> big_integer \<Rightarrow> bool \<Rightarrow> nat \<Rightarrow> digit_type \<Rightarrow> digit_type \<Rightarrow> digit_type
     \<Rightarrow> big_integer \<Rightarrow> big_integer" where
  "bitwise_loop oper rhs result_negative i a_carry b_carry res_carry this =
     (if i < length (data this) then
        (let (a_digit, a_carry') = twos_complement (is_negative this) (data this ! i) a_carry;
             b_digit0 = (if i < length (data rhs) then data rhs ! i else 0);
             (b_digit, b_carry') = twos_complement (is_negative rhs) b_digit0 b_carry;
             res_digit = op_digit oper a_digit b_digit;
             (d, res_carry') = twos_complement result_negative res_digit res_carry
         in bitwise_loop oper rhs result_negative (i + 1) a_carry' b_carry' res_carry'
              (this\<lparr>data := (data this)[i := d]\<rparr>))
      else this)"
  by pat_completeness auto
termination
  by (relation "measure (\<lambda>(oper, rhs, result_negative, i, a_carry, b_carry, res_carry, this).
        length (data this) - i)") auto

declare bitwise_loop.simps [simp del]

text \<open>\<^verbatim>\<open>this->bitwise_operation(rhs, op)\<close> for an \<^verbatim>\<open>rhs\<close> that is another object.\<close>

definition bitwise_operation :: "bit_op \<Rightarrow> big_integer \<Rightarrow> big_integer \<Rightarrow> big_integer" where
  "bitwise_operation oper this rhs =
     (let result_negative = op_bool oper (is_negative this) (is_negative rhs);
          this1 = this\<lparr>data := resize (max (length (data this)) (length (data rhs))) (data this)\<rparr>;
          this2 = bitwise_loop oper rhs result_negative 0 1 1 1 this1
      in trim (this2\<lparr>negative := result_negative\<rparr>))"

definition op_and :: "big_integer \<Rightarrow> big_integer \<Rightarrow> big_integer" where
  "op_and a b = bitwise_operation Bit_and a b"

definition op_or :: "big_integer \<Rightarrow> big_integer \<Rightarrow> big_integer" where
  "op_or a b = bitwise_operation Bit_or a b"

definition op_xor :: "big_integer \<Rightarrow> big_integer \<Rightarrow> big_integer" where
  "op_xor a b = bitwise_operation Bit_xor a b"

section \<open>Division\<close>

text \<open>
  \<^verbatim>\<open>normalize\<close> computes \<^verbatim>\<open>static_cast<int32_t>(std::log2(DIGIT_BASE / 2) - std::log2(_data.back()))\<close>
  in double precision. For a top digit \<open>x\<close> with \<open>1 \<le> x < 2\<^sup>3\<^sup>1\<close> that is the integer
  part of \<open>31 - log\<^sub>2 x\<close>, the largest \<open>k\<close> with \<open>x * 2\<^sup>k \<le> 2\<^sup>3\<^sup>1\<close>; \<open>log2_difference\<close>
  searches it from \<open>31\<close> downwards. (A zero top digit, which no canonical operand has,
  makes the source's conversion undefined.)
\<close>

fun largest_shift :: "int \<Rightarrow> nat \<Rightarrow> nat" where
  "largest_shift x 0 = 0"
| "largest_shift x (Suc k) = (if x * 2 ^ Suc k \<le> 2 ^ 31 then Suc k else largest_shift x k)"

definition log2_difference :: "digit_type \<Rightarrow> nat" where
  "log2_difference x = largest_shift (uint x) 31"

text \<open>\<^verbatim>\<open>normalize\<close> returns the shift and the shifted object.\<close>

definition normalize :: "big_integer \<Rightarrow> big_integer \<times> nat" where
  "normalize this =
     (if (ucast (last (data this)) :: double_digit_type) \<ge> DIGIT_BASE div 2 then (this, 0)
      else
        (let k0 = log2_difference (last (data this));
             k = (if (ucast (push_bit k0 (last (data this))) :: double_digit_type) < DIGIT_BASE div 2
                  then k0 + 1 else k0)
         in (shl_assign this k, k)))"

text \<open>
  The correction loop \<^verbatim>\<open>while (*this < 0) { --*q_it; *this += rhs; }\<close>. Nothing
  in its text bounds the number of rounds, so not returning is the value \<open>None\<close>.
\<close>

partial_function (option) correction_loop ::
  "big_integer \<Rightarrow> digit_type \<Rightarrow> big_integer \<Rightarrow> (big_integer \<times> digit_type) option" where
  "correction_loop this q_digit rhs =
     (if op_lt this (ctor_ll 0) then correction_loop (add_assign this rhs) (q_digit - 1) rhs
      else Some (this, q_digit))"

declare correction_loop.simps [code]

text \<open>
  The loop over the remaining quotient digits; \<open>j\<close> counts the digits that
  \<^verbatim>\<open>q_it\<close> has not reached yet, so that the digit written is \<^verbatim>\<open>q[j - 1]\<close>.
\<close>

fun quotient_loop ::
  "nat \<Rightarrow> big_integer \<Rightarrow> big_integer \<Rightarrow> digit_type list
     \<Rightarrow> (big_integer \<times> big_integer \<times> digit_type list) option" where
  "quotient_loop 0 this rhs q = Some (this, rhs, q)"
| "quotient_loop (Suc j) this rhs q =
     (if length (data this) \<ge> 2 then
        (let rhs' = rhs\<lparr>data := tl (data rhs)\<rparr>;
             t = (push_bit DIGIT_BITS (ucast (last (data this)) :: double_digit_type)
                    OR ucast (data this ! (length (data this) - 2)))
                  div ucast (last (data rhs'));
             q_digit = (ucast (min t (DIGIT_BASE - 1)) :: digit_type);
             this1 = sub_assign this (op_mul (ctor_ull (ucast q_digit) False) rhs')
         in case correction_loop this1 q_digit rhs' of
              None \<Rightarrow> None
            | Some (this2, q_digit') \<Rightarrow> quotient_loop j this2 rhs' (q[j := q_digit']))
      else Some (this, rhs, q))"

text \<open>
  \<^verbatim>\<open>this->div_rem(rhs)\<close>, with \<^verbatim>\<open>rhs\<close> passed by value. The result gives what
  \<^verbatim>\<open>*this\<close> holds when the call is left, and either the exception thrown or the
  remainder returned.
\<close>

definition div_rem :: "big_integer \<Rightarrow> big_integer \<Rightarrow> (big_integer \<times> (error + big_integer)) option" where
  "div_rem this rhs =
     (if is_zero rhs then Some (this, Inl DivisionByZero)
      else if is_zero this \<or> length (data this) < length (data rhs)
        then Some (ctor_default, Inr this)
      else
        (let this_sign = is_negative this;
             result_sign = (is_negative this \<noteq> is_negative rhs);
             this1 = this\<lparr>negative := False\<rparr>;
             rhs1 = rhs\<lparr>negative := False\<rparr>;
             (rhs2, k) = normalize rhs1;
             this2 = shl_assign this1 k;
             m = length (data this2) - length (data rhs2);
             q = replicate (m + 1) 0;
             rhs3 = rhs2\<lparr>data := replicate m 0 @ data rhs2\<rparr>;
             (q1, this3) =
               (if op_ge this2 rhs3
                then (q[m := 1], abs_subtract 0 1 0 None (store2 this2 rhs3) 0)
                else (q, this2))
         in case quotient_loop m this3 rhs3 q1 of
              None \<Rightarrow> None
            | Some (this4, rhs4, q2) \<Rightarrow>
                (let rem1 = trim (ctor_default\<lparr>data := data this4\<rparr>);
                     rem2 = fst (abs_divide_int rem1 (push_bit k 1));
                     rem3 = rem2\<lparr>negative := this_sign\<rparr>;
                     this5 = trim (this4\<lparr>data := q2, negative := result_sign\<rparr>)
                 in Some (this5, Inr rem3))))"

text \<open>
  \<^verbatim>\<open>a /= b\<close> and \<^verbatim>\<open>a %= b\<close> on a store: the result is the store when the
  operator is left, and the exception if one was thrown. \<^verbatim>\<open>operator%=\<close> swaps the
  returned remainder into \<^verbatim>\<open>*this\<close>.
\<close>

definition div_assign_st :: "addr \<Rightarrow> addr \<Rightarrow> store \<Rightarrow> (store \<times> error option) option" where
  "div_assign_st this rhs st =
     (case div_rem (st this) (st rhs) of
        None \<Rightarrow> None
      | Some (this', Inl e) \<Rightarrow> Some (st(this := this'), Some e)
      | Some (this', Inr r) \<Rightarrow> Some (st(this := this'), None))"

definition rem_assign_st :: "addr \<Rightarrow> addr \<Rightarrow> store \<Rightarrow> (store \<times> error option) option" where
  "rem_assign_st this rhs st =
     (case div_rem (st this) (st rhs) of
        None \<Rightarrow> None
      | Some (this', Inl e) \<Rightarrow> Some (st(this := this'), Some e)
      | Some (this', Inr r) \<Rightarrow> Some (st(this := r), None))"

text \<open>\<^verbatim>\<open>operator/(a, b)\<close> and \<^verbatim>\<open>operator%(a, b)\<close> work on a copy of \<^verbatim>\<open>a\<close>.\<close>

definition op_div :: "big_integer \<Rightarrow> big_integer \<Rightarrow> (error + big_integer) option" where
  "op_div a b =
     (case div_rem a b of
        None \<Rightarrow> None
      | Some (this', Inl e) \<Rightarrow> Some (Inl e)
      | Some (this', Inr r) \<Rightarrow> Some (Inr this'))"

definition op_rem :: "big_integer \<Rightarrow> big_integer \<Rightarrow> (error + big_integer) option" where
  "op_rem a b =
     (case div_rem a b of
        None \<Rightarrow> None
      | Some (this', Inl e) \<Rightarrow> Some (Inl e)
      | Some (this', Inr r) \<Rightarrow> Some (Inr r))"

section \<open>The integer a \<open>big_integer\<close> denotes\<close>

text \<open>
  The magnitude is the base \<open>2\<^sup>3\<^sup>2\<close> number whose digit \<open>i\<close> is \<^verbatim>\<open>_data[i]\<close>;
  the flag gives the sign, and an empty magnitude denotes \<open>0\<close> whatever the flag.
\<close>

fun mag :: "digit_type list \<Rightarrow> nat" where
  "mag [] = 0"
| "mag (d # ds) = unat d + 2 ^ 32 * mag ds"

definition int_of :: "big_integer \<Rightarrow> int" where
  "int_of a = (if negative a then - int (mag (data a)) else int (mag (data a)))"

text \<open>Canonical form: the highest digit, if there is one, is not zero.\<close>

definition canonical :: "big_integer \<Rightarrow> bool" where
  "canonical a = (\<not> (data a \<noteq> [] \<and> last (data a) = 0))"

section \<open>Magnitudes, trimming and canonical form\<close>

lemma trim_data_Nil [simp]: "trim_data [] = []"
  by (simp add: trim_data.simps)

lemma trim_data_snoc [simp]:
  "trim_data (ds @ [d]) = (if d = 0 then trim_data ds else ds @ [d])"
  by (subst trim_data.simps) auto

lemma mag_append: "mag (xs @ ys) = mag xs + 2 ^ (32 * length xs) * mag ys"
  by (induction xs) (simp_all add: algebra_simps power_add)

lemma mag_snoc: "mag (xs @ [d]) = mag xs + 2 ^ (32 * length xs) * unat d"
  by (simp add: mag_append)

lemma unat_digit_lt: "unat (d :: digit_type) < 2 ^ 32"
  using unsigned_less [of d, where 'a = nat] by simp

lemma mag_lt: "mag xs < 2 ^ (32 * length xs)"
proof (induction xs)
  case Nil
  show ?case by simp
next
  case (Cons d ds)
  have "unat d + 2 ^ 32 * mag ds \<le> (2 ^ 32 - 1) + 2 ^ 32 * (2 ^ (32 * length ds) - 1)"
    using Cons.IH unat_digit_lt [of d] by (intro add_mono mult_left_mono) auto
  also have "\<dots> < 2 ^ 32 * 2 ^ (32 * length ds)"
    by (simp add: algebra_simps)
  finally show ?case by (simp add: power_add)
qed

lemma mag_trim_data [simp]: "mag (trim_data xs) = mag xs"
  by (induction xs rule: rev_induct) (simp_all add: mag_snoc)

lemma length_trim_data: "length (trim_data xs) \<le> length xs"
  by (induction xs rule: rev_induct) (simp_all add: le_SucI)

lemma trim_data_canonical: "\<not> (trim_data xs \<noteq> [] \<and> last (trim_data xs) = 0)"
  by (induction xs rule: rev_induct) simp_all

lemma trim_data_id: "\<not> (xs \<noteq> [] \<and> last xs = 0) \<Longrightarrow> trim_data xs = xs"
  by (subst trim_data.simps) auto

lemma canonical_trim [simp]: "canonical (trim a)"
  using trim_data_canonical [of "data a"] by (simp add: canonical_def trim_def)

lemma mag_zero_canonical: "mag xs = 0 \<Longrightarrow> \<not> (xs \<noteq> [] \<and> last xs = 0) \<Longrightarrow> xs = []"
  by (induction xs rule: rev_induct) (auto simp: mag_snoc unat_eq_0)

lemma mag_ge_canonical:
  "xs \<noteq> [] \<Longrightarrow> last xs \<noteq> 0 \<Longrightarrow> 2 ^ (32 * (length xs - 1)) \<le> mag xs"
proof (induction xs rule: rev_induct)
  case Nil then show ?case by simp
next
  case (snoc d ds)
  then have "0 < unat d" by (simp add: unat_gt_0)
  then have "2 ^ (32 * length ds) * 1 \<le> 2 ^ (32 * length ds) * unat d"
    by (intro mult_left_mono) auto
  then show ?case by (simp add: mag_snoc trans_le_add2)
qed

lemma mag_inj_same_length:
  "length xs = length ys \<Longrightarrow> mag xs = mag ys \<Longrightarrow> xs = ys"
proof (induction xs ys rule: list_induct2)
  case Nil then show ?case by simp
next
  case (Cons x xs y ys)
  have "(unat x + 2 ^ 32 * mag xs) mod 2 ^ 32 = (unat y + 2 ^ 32 * mag ys) mod 2 ^ 32"
    using Cons.prems by simp
  then have xy: "unat x = unat y"
    using unat_digit_lt [of x] unat_digit_lt [of y] by simp
  then have "mag xs = mag ys" using Cons.prems by simp
  with Cons.IH xy show ?case by (simp add: word_unat_eq_iff)
qed

lemma canonical_length_le:
  assumes "\<not> (xs \<noteq> [] \<and> last xs = 0)" "mag xs \<le> mag ys"
  shows "length xs \<le> length ys"
proof (cases "xs = []")
  case True then show ?thesis by simp
next
  case False
  with assms have "2 ^ (32 * (length xs - 1)) \<le> mag xs" by (intro mag_ge_canonical) auto
  also have "\<dots> \<le> mag ys" by fact
  also have "\<dots> < 2 ^ (32 * length ys)" by (rule mag_lt)
  finally have "32 * (length xs - 1) < 32 * length ys"
    by (simp add: power_strict_increasing_iff)
  with False show ?thesis by (cases xs) auto
qed

lemma canonical_unique:
  assumes "\<not> (xs \<noteq> [] \<and> last xs = 0)" "\<not> (ys \<noteq> [] \<and> last ys = 0)" "mag xs = mag ys"
  shows "xs = ys"
proof -
  have "length xs = length ys"
    using canonical_length_le [OF assms(1), of ys] canonical_length_le [OF assms(2), of xs] assms(3)
    by simp
  then show ?thesis using assms(3) by (rule mag_inj_same_length)
qed

lemma canonical_zero_iff: "canonical b \<Longrightarrow> (int_of b = 0) = is_zero b"
  using mag_zero_canonical [of "data b"]
  by (auto simp: int_of_def is_zero_def canonical_def)

section \<open>Reading 32-bit and 64-bit words as natural numbers\<close>

lemma unat_ucast_up [simp]: "unat (ucast (d :: digit_type) :: double_digit_type) = unat d"
  by (simp add: unsigned_ucast_eq take_bit_nat_eq_self unat_digit_lt[simplified] order_less_trans [OF unat_digit_lt])

lemma unat_ucast_down: "unat (ucast (s :: double_digit_type) :: digit_type) = unat s mod 2 ^ 32"
  by (simp add: unsigned_ucast_eq take_bit_eq_mod)

lemma unat_drop_bit32: "unat (drop_bit 32 (s :: double_digit_type)) = unat s div 2 ^ 32"
  by (simp add: drop_bit_eq_div unat_div)

lemma unat_add64: "unat (a + b :: double_digit_type) = (unat a + unat b) mod 2 ^ 64"
  by (simp add: unat_word_ariths)

lemma unat_mult64: "unat (a * b :: double_digit_type) = (unat a * unat b) mod 2 ^ 64"
  by (simp add: unat_word_ariths)

lemma unat_sub64:
  "unat (a - b :: double_digit_type) = (if unat b \<le> unat a then unat a - unat b else unat a + 2 ^ 64 - unat b)"
  by (simp add: unat_sub_if')

lemma push_or_add: "push_bit 32 (r :: double_digit_type) OR ucast (d :: digit_type) = push_bit 32 r + ucast d"
  by (rule disjunctive_add_eq_or [symmetric]) (auto simp: bit_eq_iff bit_simps dest: bit_imp_le_length)

lemma unat_push_bit32:
  assumes "unat r < 2 ^ 32"
  shows "unat (push_bit 32 (r :: double_digit_type)) = unat r * 2 ^ 32"
proof -
  have "unat r * 2 ^ 32 < 2 ^ 32 * 2 ^ 32"
    using assms by (simp add: algebra_simps)
  then have lt: "unat r * 2 ^ 32 < 2 ^ 64" by simp
  have p2: "unat (2 ^ 32 :: double_digit_type) = 2 ^ 32" by simp
  have "unat (push_bit 32 r) = (unat r * unat (2 ^ 32 :: double_digit_type)) mod 2 ^ 64"
    unfolding push_bit_eq_mult by (rule unat_mult64)
  also have "\<dots> = unat r * 2 ^ 32"
    unfolding p2 using lt by (rule mod_less)
  finally show ?thesis .
qed

lemma unat_push_or:
  assumes "unat r < 2 ^ 32"
  shows "unat (push_bit 32 (r :: double_digit_type) OR ucast (d :: digit_type)) = unat r * 2 ^ 32 + unat d"
proof -
  have "unat r * 2 ^ 32 + unat d < 2 ^ 32 * 2 ^ 32"
    using assms unat_digit_lt [of d] by (simp add: algebra_simps)
  then have lt: "unat r * 2 ^ 32 + unat d < 2 ^ 64" by simp
  show ?thesis
    using lt by (simp only: push_or_add unat_add64 unat_push_bit32 [OF assms] unat_ucast_up mod_less)
qed

section \<open>What the digit-scalar primitives compute\<close>

lemma DIGIT_BITS_32 [simp]: "DIGIT_BITS = 32" by (simp add: DIGIT_BITS_def)

lemma abs_add_int_loop_val:
  "unat s < 2 ^ 32 \<Longrightarrow> abs_add_int_loop s ds = (ds', s') \<Longrightarrow>
     length ds' = length ds \<and> unat s' < 2 ^ 32
     \<and> mag ds' + 2 ^ (32 * length ds) * unat s' = mag ds + unat s"
proof (induction ds arbitrary: s ds' s')
  case Nil
  then show ?case by simp
next
  case (Cons d ds)
  define s1 where "s1 = s + ucast d"
  obtain es t where rec: "abs_add_int_loop (drop_bit 32 s1) ds = (es, t)"
    by (cases "abs_add_int_loop (drop_bit 32 s1) ds")
  have sum_lt: "unat s + unat d < 2 ^ 64"
    using Cons.prems(1) unat_digit_lt [of d] by simp
  have s1: "unat s1 = unat s + unat d"
    unfolding s1_def using sum_lt by (simp only: unat_add64 unat_ucast_up mod_less)
  have s2: "unat (drop_bit 32 s1) = (unat s + unat d) div 2 ^ 32"
    by (simp only: unat_drop_bit32 s1)
  have "(unat s + unat d) div 2 ^ 32 < 2 ^ 32"
    using Cons.prems(1) unat_digit_lt [of d] by (simp add: less_mult_imp_div_less)
  then have s2_lt: "unat (drop_bit 32 s1) < 2 ^ 32" by (simp only: s2)
  have res: "ds' = ucast s1 # es" "s' = t"
    using Cons.prems(2) rec by (simp_all add: s1_def Let_def)
  from Cons.IH [OF s2_lt rec]
  have ih: "length es = length ds" "unat t < 2 ^ 32"
    "mag es + 2 ^ (32 * length ds) * unat t = mag ds + unat (drop_bit 32 s1)"
    by simp_all
  have "mag ds' + 2 ^ (32 * length (d # ds)) * unat s'
      = (unat s + unat d) mod 2 ^ 32 + 2 ^ 32 * (mag es + 2 ^ (32 * length ds) * unat t)"
    by (simp add: res unat_ucast_down s1 algebra_simps power_add)
  also have "\<dots> = (unat s + unat d) mod 2 ^ 32 + 2 ^ 32 * (mag ds + (unat s + unat d) div 2 ^ 32)"
    by (simp only: ih(3) s2)
  also have "\<dots> = mag (d # ds) + unat s"
    by (simp add: algebra_simps)
  finally show ?case using ih res by simp
qed

lemma abs_mul_int_loop_val:
  "unat s < 2 ^ 32 \<Longrightarrow> abs_mul_int_loop rhs s ds = (ds', s') \<Longrightarrow>
     length ds' = length ds \<and> unat s' < 2 ^ 32
     \<and> mag ds' + 2 ^ (32 * length ds) * unat s' = mag ds * unat rhs + unat s"
proof (induction ds arbitrary: s ds' s')
  case Nil
  then show ?case by simp
next
  case (Cons d ds)
  define s1 where "s1 = (ucast d :: double_digit_type) * ucast rhs + s"
  define n1 where "n1 = unat d * unat rhs + unat s"
  obtain es t where rec: "abs_mul_int_loop rhs (drop_bit 32 s1) ds = (es, t)"
    by (cases "abs_mul_int_loop rhs (drop_bit 32 s1) ds")
  have "unat d * unat rhs \<le> (2 ^ 32 - 1) * (2 ^ 32 - 1)"
    using unat_digit_lt [of d] unat_digit_lt [of rhs] by (intro mult_mono) auto
  then have n1_le: "n1 \<le> (2 ^ 32 - 1) * (2 ^ 32 - 1) + (2 ^ 32 - 1)"
    using Cons.prems(1) by (simp add: n1_def)
  then have n1_lt: "n1 < 2 ^ 32 * 2 ^ 32" by simp
  then have n1_lt64: "n1 < 2 ^ 64" by simp
  have prod_lt: "unat d * unat rhs < 2 ^ 64" using n1_lt64 by (simp add: n1_def)
  have s1: "unat s1 = n1"
    unfolding s1_def n1_def using n1_lt64 prod_lt
    by (simp only: unat_add64 unat_mult64 unat_ucast_up mod_less n1_def)
  have s2: "unat (drop_bit 32 s1) = n1 div 2 ^ 32"
    by (simp only: unat_drop_bit32 s1)
  have "n1 div 2 ^ 32 < 2 ^ 32"
    using n1_lt by (simp add: less_mult_imp_div_less)
  then have s2_lt: "unat (drop_bit 32 s1) < 2 ^ 32" by (simp only: s2)
  have res: "ds' = ucast s1 # es" "s' = t"
    using Cons.prems(2) rec by (simp_all add: s1_def Let_def)
  from Cons.IH [OF s2_lt rec]
  have ih: "length es = length ds" "unat t < 2 ^ 32"
    "mag es + 2 ^ (32 * length ds) * unat t = mag ds * unat rhs + unat (drop_bit 32 s1)"
    by simp_all
  have "mag ds' + 2 ^ (32 * length (d # ds)) * unat s'
      = n1 mod 2 ^ 32 + 2 ^ 32 * (mag es + 2 ^ (32 * length ds) * unat t)"
    by (simp add: res unat_ucast_down s1 algebra_simps power_add)
  also have "\<dots> = n1 mod 2 ^ 32 + 2 ^ 32 * (mag ds * unat rhs + n1 div 2 ^ 32)"
    by (simp only: ih(3) s2)
  also have "\<dots> = mag ds * unat rhs * 2 ^ 32 + n1"
    by (simp add: algebra_simps)
  also have "\<dots> = mag (d # ds) * unat rhs + unat s"
    by (simp add: n1_def algebra_simps)
  finally show ?case using ih res by simp
qed

lemma DIGIT_MAX_unat: "unat DIGIT_MAX_VALUE = 2 ^ 32 - 1"
  by (simp add: DIGIT_MAX_VALUE_def)

text \<open>One digit of a borrowing subtraction: \<open>x - y\<close> in 64 bits, with \<open>y \<le> 2\<^sup>3\<^sup>3\<close>.\<close>

lemma borrow_step:
  fixes x y :: double_digit_type
  assumes "unat x < 2 ^ 32" "unat y \<le> 2 ^ 32"
  defines "diff \<equiv> x - y"
  shows "unat (ucast diff :: digit_type) + unat y
           = unat x + 2 ^ 32 * (if diff > DIGIT_MAX_VALUE then 1 else 0)"
proof (cases "unat y \<le> unat x")
  case True
  then have d: "unat diff = unat x - unat y" by (simp add: diff_def unat_sub64)
  then have "unat diff < 2 ^ 32" using assms(1) by simp
  then have "\<not> diff > DIGIT_MAX_VALUE"
    by (simp add: word_less_nat_alt DIGIT_MAX_unat)
  moreover have "unat (ucast diff :: digit_type) = unat x - unat y"
    using \<open>unat diff < 2 ^ 32\<close> by (simp only: unat_ucast_down d mod_less)
  ultimately show ?thesis using True by simp
next
  case False
  then have d: "unat diff = unat x + 2 ^ 64 - unat y" by (simp add: diff_def unat_sub64)
  have "unat diff \<ge> 2 ^ 64 - 2 ^ 32" using assms(2) d by simp
  then have gt: "diff > DIGIT_MAX_VALUE"
    by (simp add: word_less_nat_alt DIGIT_MAX_unat)
  have "unat x + 2 ^ 64 - unat y = (unat x + 2 ^ 32 - unat y) + (2 ^ 32 - 1) * 2 ^ 32"
    using False assms(2) by simp
  then have "unat diff mod 2 ^ 32 = (unat x + 2 ^ 32 - unat y) mod 2 ^ 32"
    by (simp only: d mod_mult_self1)
  also have "\<dots> = unat x + 2 ^ 32 - unat y"
    using False assms by (intro mod_less) simp
  finally have "unat (ucast diff :: digit_type) = unat x + 2 ^ 32 - unat y"
    by (simp only: unat_ucast_down)
  then show ?thesis using gt False assms(2) by simp
qed

lemma abs_sub_int_loop_val:
  "unat borrow \<le> 2 ^ 32 \<Longrightarrow>
     length (abs_sub_int_loop borrow ds) = length ds
     \<and> (\<exists>b. mag (abs_sub_int_loop borrow ds) + unat borrow = mag ds + 2 ^ (32 * length ds) * b)"
proof (induction ds arbitrary: borrow)
  case Nil
  then show ?case by simp
next
  case (Cons d ds)
  define diff where "diff = (ucast d :: double_digit_type) - borrow"
  define b' :: double_digit_type where "b' = (if diff > DIGIT_MAX_VALUE then 1 else 0)"
  have step: "unat (ucast diff :: digit_type) + unat borrow = unat d + 2 ^ 32 * unat b'"
    using borrow_step [of "ucast d" borrow] Cons.prems unat_digit_lt [of d]
    by (simp add: diff_def b'_def)
  have "unat b' \<le> 2 ^ 32" by (simp add: b'_def)
  from Cons.IH [OF this] obtain b where
    ih: "length (abs_sub_int_loop b' ds) = length ds"
      "mag (abs_sub_int_loop b' ds) + unat b' = mag ds + 2 ^ (32 * length ds) * b"
    by blast
  have unfold: "abs_sub_int_loop borrow (d # ds) = ucast diff # abs_sub_int_loop b' ds"
    by (simp add: diff_def b'_def Let_def)
  have "mag (abs_sub_int_loop borrow (d # ds)) + unat borrow
      = (unat (ucast diff :: digit_type) + unat borrow) + 2 ^ 32 * mag (abs_sub_int_loop b' ds)"
    unfolding unfold by simp
  also have "\<dots> = unat d + 2 ^ 32 * (mag (abs_sub_int_loop b' ds) + unat b')"
    by (simp only: step) (simp add: algebra_simps)
  also have "\<dots> = mag (d # ds) + 2 ^ (32 * length (d # ds)) * b"
    by (simp only: ih(2)) (simp add: algebra_simps power_add)
  finally have "\<exists>b. mag (abs_sub_int_loop borrow (d # ds)) + unat borrow
      = mag (d # ds) + 2 ^ (32 * length (d # ds)) * b" by blast
  moreover have "length (abs_sub_int_loop borrow (d # ds)) = length (d # ds)"
    unfolding unfold using ih(1) by simp
  ultimately show ?case by blast
qed

lemma abs_sub_int_loop_exact:
  assumes "unat borrow \<le> 2 ^ 32" "unat borrow \<le> mag ds"
  shows "mag (abs_sub_int_loop borrow ds) = mag ds - unat borrow"
proof -
  from abs_sub_int_loop_val [OF assms(1), of ds] obtain b where
    b: "length (abs_sub_int_loop borrow ds) = length ds"
      "mag (abs_sub_int_loop borrow ds) + unat borrow = mag ds + 2 ^ (32 * length ds) * b"
    by blast
  have lt: "mag (abs_sub_int_loop borrow ds) < 2 ^ (32 * length ds)"
    using mag_lt [of "abs_sub_int_loop borrow ds"] b(1) by simp
  have "b = 0"
  proof (rule ccontr)
    assume "b \<noteq> 0"
    then have "(2::nat) ^ (32 * length ds) * 1 \<le> 2 ^ (32 * length ds) * b"
      by (intro mult_left_mono) auto
    with b(2) assms(2) lt show False by simp
  qed
  with b(2) show ?thesis by simp
qed

lemma abs_divide_int_loop_val:
  "val \<noteq> 0 \<Longrightarrow> unat r < unat val \<Longrightarrow> abs_divide_int_loop val r ds = (qs, r') \<Longrightarrow>
     length qs = length ds
     \<and> mag (rev qs) = (unat r * 2 ^ (32 * length ds) + mag (rev ds)) div unat val
     \<and> unat r' = (unat r * 2 ^ (32 * length ds) + mag (rev ds)) mod unat val"
proof (induction ds arbitrary: r qs r')
  case Nil
  then show ?case by simp
next
  case (Cons d ds)
  define v where "v = unat val"
  define n1 where "n1 = unat r * 2 ^ 32 + unat d"
  define r1 where "r1 = push_bit 32 r OR (ucast d :: double_digit_type)"
  define r2 where "r2 = r1 mod ucast val"
  have v_lt: "v < 2 ^ 32" unfolding v_def by (rule unat_digit_lt)
  have v_pos: "0 < v" using Cons.prems(1) by (simp add: v_def unat_gt_0)
  have r_lt: "unat r < 2 ^ 32" using Cons.prems(2) v_lt by (simp add: v_def)
  have r1: "unat r1 = n1" unfolding r1_def n1_def by (rule unat_push_or [OF r_lt])
  have "n1 < (unat r + 1) * 2 ^ 32" using unat_digit_lt [of d] by (simp add: n1_def)
  also have "\<dots> \<le> v * 2 ^ 32" using Cons.prems(2) by (intro mult_right_mono) (auto simp: v_def)
  finally have n1_lt: "n1 < v * 2 ^ 32" .
  have q: "unat (ucast (r1 div ucast val) :: digit_type) = n1 div v"
  proof -
    have "unat (r1 div ucast val) = n1 div v"
      by (simp only: unat_div r1 unat_ucast_up v_def)
    moreover have "n1 div v < 2 ^ 32"
      using n1_lt v_pos by (simp add: less_mult_imp_div_less mult.commute)
    ultimately show ?thesis by (simp only: unat_ucast_down mod_less)
  qed
  have r2: "unat r2 = n1 mod v"
    unfolding r2_def by (simp only: unat_mod r1 unat_ucast_up v_def)
  then have r2_lt: "unat r2 < unat val" using v_pos by (simp add: v_def)
  obtain es t where rec: "abs_divide_int_loop val r2 ds = (es, t)"
    by (cases "abs_divide_int_loop val r2 ds")
  have res: "qs = ucast (r1 div ucast val) # es" "r' = t"
    using Cons.prems(3) rec by (simp_all add: r1_def r2_def Let_def)
  from Cons.IH [OF Cons.prems(1) r2_lt rec]
  have ih: "length es = length ds"
    "mag (rev es) = (n1 mod v * 2 ^ (32 * length ds) + mag (rev ds)) div v"
    "unat t = (n1 mod v * 2 ^ (32 * length ds) + mag (rev ds)) mod v"
    by (simp_all add: r2 v_def)
  define P where "P = (2::nat) ^ (32 * length ds)"
  define M where "M = mag (rev ds)"
  have total: "unat r * 2 ^ (32 * length (d # ds)) + mag (rev (d # ds)) = n1 * P + M"
    by (simp add: n1_def P_def M_def mag_snoc algebra_simps power_add)
  have split: "n1 * P + M = (n1 div v * P) * v + (n1 mod v * P + M)"
  proof -
    have "n1 * P = (n1 div v * v + n1 mod v) * P" by simp
    then show ?thesis by (simp only: algebra_simps)
  qed
  have dv: "(n1 * P + M) div v = n1 div v * P + (n1 mod v * P + M) div v"
    using v_pos by (simp only: split div_mult_self3 [of v "n1 mod v * P + M" "n1 div v * P"]) simp
  have md: "(n1 * P + M) mod v = (n1 mod v * P + M) mod v"
    by (simp only: split mod_mult_self3)
  have "mag (rev qs) = mag (rev es) + P * (n1 div v)"
    by (simp add: res mag_snoc q ih(1) P_def)
  also have "\<dots> = (n1 * P + M) div v"
    by (simp only: ih(2) dv P_def [symmetric] M_def [symmetric]) simp
  finally have 1: "mag (rev qs) = (unat r * 2 ^ (32 * length (d # ds)) + mag (rev (d # ds))) div unat val"
    by (simp only: total v_def)
  have "unat r' = (n1 * P + M) mod v"
    by (simp only: res ih(3) md P_def [symmetric] M_def [symmetric])
  then have 2: "unat r' = (unat r * 2 ^ (32 * length (d # ds)) + mag (rev (d # ds))) mod unat val"
    by (simp only: total v_def)
  show ?case using 1 2 ih(1) res by simp
qed

lemma canonical_iff_mag_ge:
  "xs \<noteq> [] \<Longrightarrow> (last xs \<noteq> 0) = (2 ^ (32 * (length xs - 1)) \<le> mag xs)"
proof (induction xs rule: rev_induct)
  case Nil then show ?case by simp
next
  case (snoc d ds)
  show ?case
  proof (cases "d = 0")
    case True
    then show ?thesis using mag_lt [of ds] by (simp add: mag_snoc)
  next
    case False
    then show ?thesis using mag_ge_canonical [of "ds @ [d]"] by simp
  qed
qed

lemma negative_abs_add_int [simp]: "negative (abs_add_int a r) = negative a"
  by (simp add: abs_add_int_def Let_def split: prod.splits)

lemma mag_abs_add_int [simp]: "mag (data (abs_add_int a r)) = mag (data a) + unat r"
proof -
  obtain ds s where l: "abs_add_int_loop (ucast r) (data a) = (ds, s)"
    by (cases "abs_add_int_loop (ucast r) (data a)")
  have "unat (ucast r :: double_digit_type) < 2 ^ 32"
    by (simp only: unat_ucast_up unat_digit_lt)
  from abs_add_int_loop_val [OF this l]
  have v: "length ds = length (data a)" "unat s < 2 ^ 32"
    "mag ds + 2 ^ (32 * length (data a)) * unat s = mag (data a) + unat r"
    by simp_all
  have "unat (ucast s :: digit_type) = unat s"
    using v(2) by (simp only: unat_ucast_down mod_less)
  then show ?thesis
    using v l by (auto simp: abs_add_int_def mag_snoc unat_eq_0)
qed

lemma length_abs_add_int: "length (data a) \<le> length (data (abs_add_int a r))"
proof -
  obtain ds s where l: "abs_add_int_loop (ucast r) (data a) = (ds, s)"
    by (cases "abs_add_int_loop (ucast r) (data a)")
  have "unat (ucast r :: double_digit_type) < 2 ^ 32"
    by (simp only: unat_ucast_up unat_digit_lt)
  from abs_add_int_loop_val [OF this l] show ?thesis
    using l by (simp add: abs_add_int_def)
qed

lemma canonical_abs_add_int: "canonical a \<Longrightarrow> canonical (abs_add_int a r)"
proof -
  assume c: "canonical a"
  obtain ds s where l: "abs_add_int_loop (ucast r) (data a) = (ds, s)"
    by (cases "abs_add_int_loop (ucast r) (data a)")
  have "unat (ucast r :: double_digit_type) < 2 ^ 32"
    by (simp only: unat_ucast_up unat_digit_lt)
  from abs_add_int_loop_val [OF this l]
  have v: "length ds = length (data a)" "unat s < 2 ^ 32"
    "mag ds + 2 ^ (32 * length (data a)) * unat s = mag (data a) + unat r"
    by simp_all
  show ?thesis
  proof (cases "s = 0")
    case False
    have "unat (ucast s :: digit_type) = unat s"
      using v(2) by (simp only: unat_ucast_down mod_less)
    with False have "(ucast s :: digit_type) \<noteq> 0" by (simp add: unat_eq_0 [symmetric])
    then show ?thesis using l False by (simp add: abs_add_int_def canonical_def)
  next
    case True
    then have d: "data (abs_add_int a r) = ds" using l by (simp add: abs_add_int_def)
    show ?thesis
    proof (cases "data a = []")
      case True
      then show ?thesis using v(1) d by (simp add: canonical_def)
    next
      case False
      then have "last (data a) \<noteq> 0" using c by (simp add: canonical_def)
      then have "2 ^ (32 * (length (data a) - 1)) \<le> mag (data a)"
        using False by (simp add: canonical_iff_mag_ge)
      also have "\<dots> \<le> mag ds" using v(3) True by simp
      finally have "2 ^ (32 * (length ds - 1)) \<le> mag ds" by (simp only: v(1))
      moreover have "ds \<noteq> []" using False v(1) by auto
      ultimately have "last ds \<noteq> 0" using canonical_iff_mag_ge [of ds] by blast
      then show ?thesis using d by (simp add: canonical_def)
    qed
  qed
qed

lemma negative_trim [simp]: "negative (trim a) = negative a"
  by (simp add: trim_def)

lemma data_trim [simp]: "data (trim a) = trim_data (data a)"
  by (simp add: trim_def)

lemma negative_abs_sub_int [simp]: "negative (abs_sub_int a r) = negative a"
  by (simp add: abs_sub_int_def)

lemma canonical_abs_sub_int [simp]: "canonical (abs_sub_int a r)"
  by (simp add: abs_sub_int_def)

lemma mag_abs_sub_int:
  "unat r \<le> mag (data a) \<Longrightarrow> mag (data (abs_sub_int a r)) = mag (data a) - unat r"
  using abs_sub_int_loop_exact [of "ucast r" "data a"] unat_digit_lt [of r]
  by (simp add: abs_sub_int_def)

lemma negative_abs_mul_int [simp]: "negative (abs_mul_int a r) = negative a"
  by (simp add: abs_mul_int_def Let_def split: prod.splits)

lemma canonical_abs_mul_int [simp]: "canonical (abs_mul_int a r)"
  by (simp add: abs_mul_int_def Let_def split: prod.splits)

lemma mag_abs_mul_int [simp]: "mag (data (abs_mul_int a r)) = mag (data a) * unat r"
proof -
  obtain ds s where l: "abs_mul_int_loop r 0 (data a) = (ds, s)"
    by (cases "abs_mul_int_loop r 0 (data a)")
  have "unat (0 :: double_digit_type) < 2 ^ 32" by simp
  from abs_mul_int_loop_val [OF this l]
  have v: "length ds = length (data a)" "unat s < 2 ^ 32"
    "mag ds + 2 ^ (32 * length (data a)) * unat s = mag (data a) * unat r"
    by simp_all
  have "unat (ucast s :: digit_type) = unat s"
    using v(2) by (simp only: unat_ucast_down mod_less)
  then show ?thesis
    using v l by (auto simp: abs_mul_int_def mag_snoc unat_eq_0)
qed

lemma negative_abs_divide_int [simp]: "negative (fst (abs_divide_int a v)) = negative a"
  by (simp add: abs_divide_int_def Let_def split: prod.splits)

lemma canonical_abs_divide_int [simp]: "canonical (fst (abs_divide_int a v))"
  by (simp add: abs_divide_int_def Let_def split: prod.splits)

lemma abs_divide_int_val:
  assumes "v \<noteq> 0"
  shows "mag (data (fst (abs_divide_int a v))) = mag (data a) div unat v"
    and "unat (snd (abs_divide_int a v)) = mag (data a) mod unat v"
proof -
  obtain qs r where l: "abs_divide_int_loop v 0 (rev (data a)) = (qs, r)"
    by (cases "abs_divide_int_loop v 0 (rev (data a))")
  have "unat (0 :: double_digit_type) < unat v" using assms by (simp add: unat_gt_0)
  from abs_divide_int_loop_val [OF assms this l]
  have v: "mag (rev qs) = mag (data a) div unat v" "unat r = mag (data a) mod unat v"
    by simp_all
  show "mag (data (fst (abs_divide_int a v))) = mag (data a) div unat v"
    using l v by (simp add: abs_divide_int_def)
  have "unat r < unat v" using v(2) assms by (simp add: unat_gt_0)
  then have "unat r < 2 ^ 32" using unat_digit_lt [of v] by simp
  then have "unat (ucast r :: digit_type) = unat r"
    by (simp only: unat_ucast_down mod_less)
  then show "unat (snd (abs_divide_int a v)) = mag (data a) mod unat v"
    using l v by (simp add: abs_divide_int_def)
qed

lemma length_abs_divide_int_loop:
  "abs_divide_int_loop v r ds = (qs, r') \<Longrightarrow> length qs = length ds"
  by (induction ds arbitrary: r qs r') (auto simp: Let_def split: prod.splits)

lemma length_abs_divide_int: "length (data (fst (abs_divide_int a v))) \<le> length (data a)"
proof -
  obtain qs r where l: "abs_divide_int_loop v 0 (rev (data a)) = (qs, r)"
    by (cases "abs_divide_int_loop v 0 (rev (data a))")
  from length_abs_divide_int_loop [OF l] length_trim_data [of "rev qs"]
  show ?thesis using l by (simp add: abs_divide_int_def)
qed

section \<open>Decimal input and output\<close>

subsection \<open>\<^verbatim>\<open>to_string\<close>\<close>

text \<open>
  The inner loop pushes the decimal digits of one remainder, least significant first, and
  counts \<^verbatim>\<open>len\<close> down from 9. The remainder is below \<open>10\<^sup>9\<close>, so \<^verbatim>\<open>len\<close> never
  passes zero and a natural number stands for the \<^verbatim>\<open>size_t\<close>.
\<close>

function push_digits :: "digit_type \<Rightarrow> string \<Rightarrow> nat \<Rightarrow> string \<times> nat" where
  "push_digits rem res len =
     (if rem \<noteq> 0
      then push_digits (rem div 10) (res @ [char_of (unat (rem mod 10) + 48)]) (len - 1)
      else (res, len))"
  by pat_completeness auto
termination
proof (relation "measure (\<lambda>(rem, res, len). unat rem)")
  show "wf (measure (\<lambda>(rem, res, len). unat rem))" by simp
next
  fix rem :: digit_type and res :: string and len :: nat
  assume "rem \<noteq> 0"
  then have "0 < unat rem" by (simp add: unat_gt_0)
  then have "unat rem div 10 < unat rem" by simp
  then have "unat (rem div 10) < unat rem" by (simp add: unat_div)
  then show "((rem div 10, res @ [char_of (unat (rem mod 10) + 48)], len - 1), rem, res, len)
      \<in> measure (\<lambda>(rem, res, len). unat rem)"
    by simp
qed

declare push_digits.simps [simp del]

lemma abs_divide_int_decreases:
  assumes "\<not> is_zero copy"
  shows "mag (data (fst (abs_divide_int copy DIGIT_MOD10)))
           + length (data (fst (abs_divide_int copy DIGIT_MOD10)))
         < mag (data copy) + length (data copy)"
proof -
  define copy' where "copy' = fst (abs_divide_int copy DIGIT_MOD10)"
  have v: "DIGIT_MOD10 \<noteq> 0" "unat DIGIT_MOD10 = 1000000000" by (simp_all add: DIGIT_MOD10_def)
  have m: "mag (data copy') = mag (data copy) div 1000000000"
    unfolding copy'_def using abs_divide_int_val(1) [OF v(1), of copy] by (simp only: v(2))
  have l: "length (data copy') \<le> length (data copy)"
    unfolding copy'_def by (rule length_abs_divide_int)
  have "mag (data copy') + length (data copy') < mag (data copy) + length (data copy)"
  proof (cases "mag (data copy) = 0")
    case True
    then have "mag (data copy') = 0" using m by simp
    moreover have "canonical copy'" unfolding copy'_def by simp
    ultimately have "data copy' = []"
      using mag_zero_canonical [of "data copy'"] by (simp add: canonical_def)
    then show ?thesis using assms True by (simp add: is_zero_def)
  next
    case False
    then have "mag (data copy') < mag (data copy)" using m by simp
    then show ?thesis using l by simp
  qed
  then show ?thesis by (simp only: copy'_def)
qed

function to_string_loop :: "big_integer \<Rightarrow> string \<Rightarrow> string" where
  "to_string_loop copy res =
     (if \<not> is_zero copy then
        (let (copy', rem) = abs_divide_int copy DIGIT_MOD10;
             (res1, len) = push_digits rem res 9;
             res2 = (if \<not> is_zero copy' then res1 @ replicate len CHR ''0'' else res1)
         in to_string_loop copy' res2)
      else res)"
  by pat_completeness auto
termination
proof (relation "measure (\<lambda>(copy, res). mag (data copy) + length (data copy))", goal_cases)
  case 1
  show ?case by simp
next
  case (2 copy res x copy' rem)
  then have "copy' = fst (abs_divide_int copy DIGIT_MOD10)" by (metis fst_conv)
  with abs_divide_int_decreases [OF 2(1)] show ?case by simp
qed

declare to_string_loop.simps [simp del]

definition to_string :: "big_integer \<Rightarrow> string" where
  "to_string a =
     (if is_zero a then ''0''
      else
        (let res = to_string_loop a [];
             res' = (if is_negative a then res @ [CHR ''-''] else res)
         in rev res'))"

subsection \<open>Construction from a string\<close>

text \<open>
  \<^verbatim>\<open>std::from_chars(first, last, digit)\<close> for an unsigned 32-bit \<^verbatim>\<open>digit\<close>, as the
  C++ standard library documents it: it consumes the longest prefix of decimal digits (no
  sign is accepted for an unsigned type), stores the number they denote when it fits, and
  leaves \<^verbatim>\<open>digit\<close> (initialised to \<open>0\<close> by the caller) alone otherwise. The model
  returns how many characters were consumed (\<^verbatim>\<open>res.ptr - first\<close>) and the digit.
\<close>

definition is_digit :: "char \<Rightarrow> bool" where
  "is_digit c = (48 \<le> (of_char c :: nat) \<and> (of_char c :: nat) \<le> 57)"

definition digit_value :: "char \<Rightarrow> nat" where
  "digit_value c = of_char c - 48"

definition decimal_value :: "string \<Rightarrow> nat" where
  "decimal_value s = foldl (\<lambda>acc c. acc * 10 + digit_value c) 0 s"

definition from_chars :: "string \<Rightarrow> nat \<times> digit_type" where
  "from_chars chunk =
     (let ds = takeWhile is_digit chunk;
          v = decimal_value ds
      in (length ds, if v < 2 ^ 32 then of_nat v else 0))"

text \<open>
  The loop of the constructor; \<open>rest\<close> is the part of the string from \<^verbatim>\<open>index\<close> on,
  and a chunk is its first \<^verbatim>\<open>DIGITS_10\<close> characters (fewer at the end).
\<close>

function parse_chunks :: "string \<Rightarrow> big_integer \<Rightarrow> error + big_integer" where
  "parse_chunks rest this =
     (if rest \<noteq> [] then
        (let chunk = take DIGITS_10 rest;
             (consumed, digit) = from_chars chunk
         in if consumed \<noteq> length chunk then Inl ParseError
            else parse_chunks (drop DIGITS_10 rest)
                   (abs_add_int (abs_mul_int this (10 ^ length chunk)) digit))
      else Inr this)"
  by pat_completeness auto
termination
  by (relation "measure (\<lambda>(rest, this). length rest)") (auto simp: DIGITS_10_def)

declare parse_chunks.simps [simp del]

definition from_string :: "string \<Rightarrow> error + big_integer" where
  "from_string str =
     (let (this, rest) =
            (if str \<noteq> [] \<and> hd str = CHR ''-'' then (negate ctor_default, tl str)
             else (ctor_default, str))
      in if rest = [] then Inl ParseError
         else (case parse_chunks rest this of
                 Inl e \<Rightarrow> Inl e
               | Inr this' \<Rightarrow> Inr (trim this')))"

section \<open>Right shift\<close>

text \<open>
  C2. The claim: \<open>a >> s\<close> is the floor of \<open>a / 2\<^sup>s\<close>, so \<open>-8 >> 2 = -2\<close> and
  \<open>-1 >> 1 = -1\<close>. The code adds one to the shifted magnitude of every negative
  number whose shifted magnitude is not empty, also when no bit was dropped, and adds
  nothing when the shifted magnitude is empty: \<open>-8 >> 2\<close> is \<open>-3\<close> and \<open>-1 >> 1\<close> is
  \<open>0\<close>, where the floors are \<open>-2\<close> and \<open>-1\<close>.
\<close>

theorem shr_negative_not_floor:
  "op_shr (ctor_ll (- 8)) 2 = \<lparr>data = [3], negative = True\<rparr>
   \<and> int_of (ctor_ll (- 8)) = - 8
   \<and> int_of (op_shr (ctor_ll (- 8)) 2) = - 3
   \<and> (- 8 :: int) div 2 ^ 2 = - 2
   \<and> op_shr (ctor_ll (- 1)) 1 = \<lparr>data = [], negative = True\<rparr>
   \<and> int_of (ctor_ll (- 1)) = - 1
   \<and> int_of (op_shr (ctor_ll (- 1)) 1) = 0
   \<and> (- 1 :: int) div 2 ^ 1 = - 1"
  by (simp add: op_shr_def shr_assign_def ctor_ll_def ctor_ull_def DIGIT_BITS_def
      abs_divide_int_def trim_def trim_data.simps is_negative_def is_zero_def
      abs_add_int_def int_of_def)


section \<open>Division and remainder\<close>

lemma from_string_examples:
  "from_string ''4294967297'' = Inr \<lparr>data = [1, 1], negative = False\<rparr>"
  "from_string ''1'' = Inr \<lparr>data = [1], negative = False\<rparr>"
  "from_string ''-0'' = Inr \<lparr>data = [], negative = True\<rparr>"
  by (simp_all add: from_string_def parse_chunks.simps ctor_default_def negate_def
      DIGITS_10_def from_chars_def is_digit_def decimal_value_def digit_value_def
      abs_add_int_def abs_mul_int_def trim_def trim_data.simps)

lemma int_of_examples:
  "int_of \<lparr>data = [1, 1], negative = False\<rparr> = 4294967297"
  "int_of \<lparr>data = [0, 1], negative = False\<rparr> = 4294967296"
  "int_of \<lparr>data = [1], negative = False\<rparr> = 1"
  by (simp_all add: int_of_def)

lemma div_rem_examples:
  "op_div \<lparr>data = [1, 1], negative = False\<rparr> \<lparr>data = [1], negative = False\<rparr>
     = Some (Inr \<lparr>data = [0, 1], negative = False\<rparr>)"
  "op_rem \<lparr>data = [1, 1], negative = False\<rparr> \<lparr>data = [1], negative = False\<rparr>
     = Some (Inr \<lparr>data = [1], negative = False\<rparr>)"
  "op_div (ctor_ll (- 7)) (ctor_ll 2) = Some (Inr \<lparr>data = [3], negative = True\<rparr>)"
  "op_rem (ctor_ll (- 7)) (ctor_ll 2) = Some (Inr \<lparr>data = [1], negative = True\<rparr>)"
  by code_simp+

lemma to_string_examples:
  "to_string \<lparr>data = [0, 1], negative = False\<rparr> = ''4294967296''"
  "to_string \<lparr>data = [1], negative = False\<rparr> = ''1''"
  "to_string \<lparr>data = [3], negative = True\<rparr> = ''-3''"
  "to_string \<lparr>data = [1], negative = True\<rparr> = ''-1''"
  by code_simp+

text \<open>
  C1. The claim: for \<open>b \<noteq> 0\<close> the quotient and remainder satisfy
  \<open>(a / b) * b + a % b = a\<close> and \<open>|a % b| < |b|\<close>. The loop of \<^verbatim>\<open>div_rem\<close> over the
  quotient digits stops as soon as the working dividend has fewer than two digits, also
  when quotient digits are still due: for \<open>a = 4294967297 = 2\<^sup>3\<^sup>2 + 1\<close> and \<open>b = 1\<close> the
  first subtraction leaves a one-digit dividend, the last quotient digit stays \<open>0\<close>, and the
  code returns \<open>a / b = 4294967296\<close> and \<open>a % b = 1\<close>, so \<open>|a % b| < |b|\<close> fails. The
  scenario of the claim, \<open>-7 / 2 = -3\<close> and \<open>-7 % 2 = -1\<close>, holds.
\<close>

theorem div_rem_stops_early:
  "from_string ''4294967297'' = Inr \<lparr>data = [1, 1], negative = False\<rparr>
   \<and> from_string ''1'' = Inr \<lparr>data = [1], negative = False\<rparr>
   \<and> op_div \<lparr>data = [1, 1], negative = False\<rparr> \<lparr>data = [1], negative = False\<rparr>
       = Some (Inr \<lparr>data = [0, 1], negative = False\<rparr>)
   \<and> op_rem \<lparr>data = [1, 1], negative = False\<rparr> \<lparr>data = [1], negative = False\<rparr>
       = Some (Inr \<lparr>data = [1], negative = False\<rparr>)
   \<and> to_string \<lparr>data = [0, 1], negative = False\<rparr> = ''4294967296''
   \<and> to_string \<lparr>data = [1], negative = False\<rparr> = ''1''
   \<and> int_of \<lparr>data = [1, 1], negative = False\<rparr> = 4294967297
   \<and> int_of \<lparr>data = [0, 1], negative = False\<rparr> = 4294967296
   \<and> int_of \<lparr>data = [1], negative = False\<rparr> = 1
   \<and> op_div (ctor_ll (- 7)) (ctor_ll 2) = Some (Inr \<lparr>data = [3], negative = True\<rparr>)
   \<and> op_rem (ctor_ll (- 7)) (ctor_ll 2) = Some (Inr \<lparr>data = [1], negative = True\<rparr>)
   \<and> to_string \<lparr>data = [3], negative = True\<rparr> = ''-3''
   \<and> to_string \<lparr>data = [1], negative = True\<rparr> = ''-1''"
  by (simp only: from_string_examples int_of_examples div_rem_examples to_string_examples simp_thms)

section \<open>Division by zero\<close>

lemma div_rem_zero: "is_zero b \<Longrightarrow> div_rem a b = Some (a, Inl DivisionByZero)"
  by (simp add: div_rem_def)

lemma div_rem_no_error: "\<not> is_zero b \<Longrightarrow> div_rem a b \<noteq> Some (t, Inl e)"
  by (auto simp: div_rem_def Let_def split: prod.splits option.splits if_splits)

text \<open>
  C3. \<^verbatim>\<open>a /= b\<close>, \<^verbatim>\<open>a %= b\<close>, \<^verbatim>\<open>a / b\<close> and \<^verbatim>\<open>a % b\<close> throw the division-by-zero
  error when \<open>b\<close> is zero, and then the store, which holds both operands, is what it was
  before the call; when \<open>b\<close> is not zero they throw nothing.
\<close>

theorem division_by_zero_error:
  assumes "canonical (st rhs)"
  shows "(int_of (st rhs) = 0 \<longrightarrow>
            div_assign_st this rhs st = Some (st, Some DivisionByZero)
          \<and> rem_assign_st this rhs st = Some (st, Some DivisionByZero)
          \<and> op_div (st this) (st rhs) = Some (Inl DivisionByZero)
          \<and> op_rem (st this) (st rhs) = Some (Inl DivisionByZero))
       \<and> (int_of (st rhs) \<noteq> 0 \<longrightarrow>
            (\<forall>st' e. div_assign_st this rhs st \<noteq> Some (st', Some e))
          \<and> (\<forall>st' e. rem_assign_st this rhs st \<noteq> Some (st', Some e))
          \<and> (\<forall>e. op_div (st this) (st rhs) \<noteq> Some (Inl e))
          \<and> (\<forall>e. op_rem (st this) (st rhs) \<noteq> Some (Inl e)))"
proof (cases "is_zero (st rhs)")
  case True
  then have "int_of (st rhs) = 0" using assms by (simp add: canonical_zero_iff)
  moreover have "div_rem (st this) (st rhs) = Some (st this, Inl DivisionByZero)"
    using True by (rule div_rem_zero)
  ultimately show ?thesis
    by (simp add: div_assign_st_def rem_assign_st_def op_div_def op_rem_def)
next
  case False
  then have "int_of (st rhs) \<noteq> 0" using assms by (simp add: canonical_zero_iff)
  moreover have "\<And>t e. div_rem (st this) (st rhs) \<noteq> Some (t, Inl e)"
    using False by (rule div_rem_no_error)
  ultimately show ?thesis
    by (auto simp: div_assign_st_def rem_assign_st_def op_div_def op_rem_def
        split: option.splits prod.splits sum.splits)
qed

theorem division_by_zero_error_witness:
  "canonical (store2 (ctor_ll 7) (ctor_ll 0) 1)
   \<and> int_of (store2 (ctor_ll 7) (ctor_ll 0) 1) = 0
   \<and> div_assign_st 0 1 (store2 (ctor_ll 7) (ctor_ll 0))
       = Some (store2 (ctor_ll 7) (ctor_ll 0), Some DivisionByZero)
   \<and> rem_assign_st 0 1 (store2 (ctor_ll 7) (ctor_ll 0))
       = Some (store2 (ctor_ll 7) (ctor_ll 0), Some DivisionByZero)
   \<and> canonical (store2 (ctor_ll 7) (ctor_ll 2) 1)
   \<and> int_of (store2 (ctor_ll 7) (ctor_ll 2) 1) = 2
   \<and> op_div (store2 (ctor_ll 7) (ctor_ll 2) 0) (store2 (ctor_ll 7) (ctor_ll 2) 1)
       \<noteq> Some (Inl DivisionByZero)"
proof -
  have z: "canonical (store2 (ctor_ll 7) (ctor_ll 0) 1)"
    "int_of (store2 (ctor_ll 7) (ctor_ll 0) 1) = 0"
    by (simp_all add: store2_def ctor_ll_def ctor_ull_def canonical_def int_of_def)
  have n: "canonical (store2 (ctor_ll 7) (ctor_ll 2) 1)"
    "int_of (store2 (ctor_ll 7) (ctor_ll 2) 1) = 2"
    by (simp_all add: store2_def ctor_ll_def ctor_ull_def canonical_def int_of_def)
  show ?thesis
    using division_by_zero_error [of "store2 (ctor_ll 7) (ctor_ll 0)" 1 0, OF z(1)]
      division_by_zero_error [of "store2 (ctor_ll 7) (ctor_ll 2)" 1 0, OF n(1)] z n
    by simp
qed

section \<open>Sign of a bitwise result\<close>

text \<open>
  C8. The claim: the sign of \<open>a op b\<close> is \<open>op\<close> applied to the sign bits of \<open>a\<close> and
  \<open>b\<close>. \<^verbatim>\<open>bitwise_operation\<close> stores that bit in \<^verbatim>\<open>_negative\<close>, but converts the result
  back from two's complement within the digits of the longer operand and drops the final
  carry: \<open>-1 ^ 4294967295\<close>, which is \<open>-4294967296\<close>, comes out with an empty magnitude, so
  the result is zero and not negative although \<open>1 xor 0 = 1\<close>. The two scenarios of the
  claim hold.
\<close>

theorem bitwise_result_sign_lost:
  "is_negative (ctor_ll (- 1))
   \<and> \<not> is_negative (ctor_ll 4294967295)
   \<and> op_bool Bit_xor (is_negative (ctor_ll (- 1))) (is_negative (ctor_ll 4294967295))
   \<and> op_xor (ctor_ll (- 1)) (ctor_ll 4294967295) = \<lparr>data = [], negative = True\<rparr>
   \<and> \<not> is_negative (op_xor (ctor_ll (- 1)) (ctor_ll 4294967295))
   \<and> to_string (op_xor (ctor_ll (- 1)) (ctor_ll 4294967295)) = ''0''
   \<and> is_negative (ctor_ll (- 65536)) \<and> is_negative (ctor_ll (- 4294901761))
   \<and> \<not> is_negative (op_and (ctor_ll (- 65536)) (ctor_ll (- 4294901761)))
   \<and> to_string (op_and (ctor_ll 4294967295) (ctor_ll 4294967295)) = ''4294967295''
   \<and> to_string (op_and (ctor_ll 4294967295) (ctor_ll (- 1))) = ''4294967295''"
  by code_simp

end
